theory Spec2Isabelle
  imports Main
begin

section \<open>Values and the object store\<close>

text \<open>
  JavaScript values as the reactivity code sees them. A primitive is its own value. An
  ordinary object (a keyed record, an array, a function, a \<open>Map\<close>, a host-tree node) is a
  reference \<open>VObj a\<close> into the store. A \<open>Proxy\<close> has no state of its own: it is fixed by
  its identity and its target, so the reference \<open>VProxy p t\<close> carries both (\<open>p\<close> is the
  identity given at construction, \<open>t\<close> the target, itself an object or another proxy).
  Two references are identity-equal (\<open>===\<close>) when they are equal as values.
\<close>

datatype val =
    VUndefined
  | VNull
  | VBool bool
  | VNum int
  | VStr string
  | VObj nat
  | VProxy nat val

text \<open>
  An ordinary object: the class name that \<open>Object.prototype.toString\<close> reports for it,
  whether it is extensible, and its own properties in the order of their creation.
\<close>

record obj =
  className :: string
  extensible :: bool
  properties :: "(string \<times> val) list"

record heap =
  objs :: "nat \<Rightarrow> obj"
  nextProxy :: nat

text \<open>
  JavaScript truthiness, as used by \<open>&&\<close> and \<open>? :\<close>. Numbers are modelled as integers,
  so zero is the one falsy number.
\<close>

fun truthy :: "val \<Rightarrow> bool" where
  "truthy VUndefined = False"
| "truthy VNull = False"
| "truthy (VBool b) = b"
| "truthy (VNum n) = (n \<noteq> 0)"
| "truthy (VStr s) = (s \<noteq> [])"
| "truthy (VObj a) = True"
| "truthy (VProxy p t) = True"

section \<open>shared/general.ts: the raw type of a value\<close>

text \<open>
  \<open>Object.prototype.toString.call(value)\<close> is \<open>"[object " + tag + "]"\<close>. A proxy without
  traps for it forwards the question to its target, so a wrapper reports the tag of what
  it wraps.
\<close>

fun builtinTag :: "(nat \<Rightarrow> obj) \<Rightarrow> val \<Rightarrow> string" where
  "builtinTag os VUndefined = ''Undefined''"
| "builtinTag os VNull = ''Null''"
| "builtinTag os (VBool b) = ''Boolean''"
| "builtinTag os (VNum n) = ''Number''"
| "builtinTag os (VStr s) = ''String''"
| "builtinTag os (VObj a) = className (os a)"
| "builtinTag os (VProxy p t) = builtinTag os t"

definition toTypeString :: "(nat \<Rightarrow> obj) \<Rightarrow> val \<Rightarrow> string" where
  "toTypeString os v = ''[object '' @ builtinTag os v @ '']''"

text \<open>\<open>String.prototype.slice(start, stop)\<close>, negative indices counting from the end.\<close>

definition slice :: "string \<Rightarrow> int \<Rightarrow> int \<Rightarrow> string" where
  "slice s start stop =
     (let len = int (length s);
          lo = (if start < 0 then max (len + start) 0 else min start len);
          hi = (if stop < 0 then max (len + stop) 0 else min stop len)
      in take (nat (hi - lo)) (drop (nat lo) s))"

definition toRawType :: "(nat \<Rightarrow> obj) \<Rightarrow> val \<Rightarrow> string" where
  "toRawType os v = slice (toTypeString os v) 8 (- 1)"

section \<open>reactive.ts: which targets are wrapped\<close>

datatype TargetType = INVALID | COMMON

definition targetTypeMap :: "string \<Rightarrow> TargetType" where
  "targetTypeMap rawType =
     (if rawType = ''Object'' then COMMON
      else if rawType = ''Array'' then COMMON
      else INVALID)"

text \<open>\<open>Object.isExtensible\<close>: false for a primitive, forwarded to the target by a proxy.\<close>

fun isExtensible :: "(nat \<Rightarrow> obj) \<Rightarrow> val \<Rightarrow> bool" where
  "isExtensible os (VObj a) = extensible (os a)"
| "isExtensible os (VProxy p t) = isExtensible os t"
| "isExtensible os v = False"

definition getTargetType :: "(nat \<Rightarrow> obj) \<Rightarrow> val \<Rightarrow> TargetType" where
  "getTargetType os v =
     (if \<not> isExtensible os v then INVALID else targetTypeMap (toRawType os v))"

text \<open>
  \<open>reactive(target)\<close>: an invalid target is returned as it is; otherwise
  \<open>new Proxy(target, mutableHandlers)\<close> constructs a proxy with a new identity.
\<close>

definition reactive :: "val \<Rightarrow> 'a heap_scheme \<Rightarrow> val \<times> 'a heap_scheme" where
  "reactive target h =
     (if getTargetType (objs h) target = INVALID then (target, h)
      else (VProxy (nextProxy h) target, h\<lparr>nextProxy := Suc (nextProxy h)\<rparr>))"

section \<open>toRaw\<close>

definition ReactiveFlags_RAW :: string where
  "ReactiveFlags_RAW = ''__v_raw''"

text \<open>
  Modelled from the spec: the property getter of \<open>mutableHandlers\<close> is not in the source.
  The chapter text and section 4.1 of the specification say that a read of the key
  \<open>ReactiveFlags.RAW\<close> through a wrapper returns the raw data, the proxy's target; this is
  the \<open>VProxy\<close> equation. An ordinary object answers with its own property of that name,
  or \<open>undefined\<close>; so does a (boxed) primitive, which has none.
\<close>

fun getRawFlag :: "(nat \<Rightarrow> obj) \<Rightarrow> val \<Rightarrow> val" where
  "getRawFlag os (VProxy p t) = t"
| "getRawFlag os (VObj a) =
     (case map_of (properties (os a)) ReactiveFlags_RAW of None \<Rightarrow> VUndefined | Some r \<Rightarrow> r)"
| "getRawFlag os v = VUndefined"

text \<open>\<open>observed && observed[ReactiveFlags.RAW]\<close>: a falsy \<open>observed\<close> is the result itself.\<close>

definition rawOf :: "(nat \<Rightarrow> obj) \<Rightarrow> val \<Rightarrow> val" where
  "rawOf os observed = (if truthy observed then getRawFlag os observed else observed)"

text \<open>
  \<open>toRaw\<close> calls itself for as long as the marker read is truthy. Nothing bounds the
  chain of markers of ordinary objects, so the recursion is partial: \<open>None\<close> stands for a
  call that does not return.
\<close>

partial_function (option) toRaw :: "(nat \<Rightarrow> obj) \<Rightarrow> val \<Rightarrow> val option" where
  "toRaw os observed =
     (if truthy (rawOf os observed) then toRaw os (rawOf os observed) else Some observed)"

section \<open>Example store\<close>

definition emptyObject :: obj where
  "emptyObject = \<lparr>className = ''Object'', extensible = True, properties = []\<rparr>"

text \<open>
  Address 6 holds a record with a property named \<open>__v_raw\<close>, address 2 a \<open>Map\<close>, address 3 an
  input element of the host tree, address 4 a frozen record, address 5 an array, address 7
  a record whose \<open>__v_raw\<close> property refers to the record itself; every other address
  holds an empty record.
\<close>

definition exampleObjs :: "nat \<Rightarrow> obj" where
  "exampleObjs =
     (\<lambda>a. emptyObject)
       (6 := \<lparr>className = ''Object'', extensible = True,
              properties = [(ReactiveFlags_RAW, VObj 0)]\<rparr>,
        2 := \<lparr>className = ''Map'', extensible = True, properties = []\<rparr>,
        3 := \<lparr>className = ''HTMLInputElement'', extensible = True,
              properties = [(''value'', VStr ''abc'')]\<rparr>,
        4 := \<lparr>className = ''Object'', extensible = False,
              properties = [(''count'', VNum 0)]\<rparr>,
        5 := \<lparr>className = ''Array'', extensible = True,
              properties = [(''0'', VNum 7), (''length'', VNum 1)]\<rparr>,
        7 := \<lparr>className = ''Object'', extensible = True,
              properties = [(ReactiveFlags_RAW, VObj 7)]\<rparr>)"

definition exampleHeap :: heap where
  "exampleHeap = \<lparr>objs = exampleObjs, nextProxy = 0\<rparr>"

section \<open>runtime-core/componentPublicInstance.ts\<close>

text \<open>
  The part of \<open>ComponentInternalInstance\<close> that the public-instance proxy reads. Each of
  \<open>setupState\<close>, \<open>props\<close> and \<open>data\<close> is a keyed record; \<open>propsOptions\<close> may be absent
  (the handler tests it for truthiness before use).
\<close>

record ComponentInternalInstance =
  setupState :: "string \<rightharpoonup> val"
  props :: "string \<rightharpoonup> val"
  data :: "string \<rightharpoonup> val"
  propsOptions :: "(string \<rightharpoonup> val) option"

text \<open>
  Modelled from the spec: \<open>hasOwn\<close> of the shared package is not in the source; it is the
  own-property test (the claims read it as "owns the key").
\<close>

definition hasOwn :: "(string \<rightharpoonup> val) \<Rightarrow> string \<Rightarrow> bool" where
  "hasOwn state key = (state key \<noteq> None)"

definition hasSetupBinding :: "(string \<rightharpoonup> val) \<Rightarrow> string \<Rightarrow> bool" where
  "hasSetupBinding state key = hasOwn state key"

text \<open>\<open>record[key]\<close>: the own property, \<open>undefined\<close> when there is none.\<close>

definition member :: "(string \<rightharpoonup> val) \<Rightarrow> string \<Rightarrow> val" where
  "member state key = (case state key of None \<Rightarrow> VUndefined | Some v \<Rightarrow> v)"

text \<open>The \<open>get\<close> trap; falling off the end of the function returns \<open>undefined\<close>.\<close>

definition PublicInstanceProxyHandlers_get :: "ComponentInternalInstance \<Rightarrow> string \<Rightarrow> val" where
  "PublicInstanceProxyHandlers_get instance key =
     (if hasSetupBinding (setupState instance) key then member (setupState instance) key
      else if (case propsOptions instance of
                 None \<Rightarrow> False
               | Some normalizedProps \<Rightarrow> hasOwn normalizedProps key)
           then member (props instance) key
      else if hasOwn (data instance) key then member (data instance) key
      else VUndefined)"

text \<open>The \<open>set\<close> trap: the boolean it returns, and the instance after the call.\<close>

definition PublicInstanceProxyHandlers_set ::
  "ComponentInternalInstance \<Rightarrow> string \<Rightarrow> val \<Rightarrow> bool \<times> ComponentInternalInstance" where
  "PublicInstanceProxyHandlers_set instance key v =
     (if hasSetupBinding (setupState instance) key
        then (True, instance\<lparr>setupState := (setupState instance)(key \<mapsto> v)\<rparr>)
      else if hasOwn (data instance) key
        then (True, instance\<lparr>data := (data instance)(key \<mapsto> v)\<rparr>)
      else (True, instance))"

definition exampleInstance :: ComponentInternalInstance where
  "exampleInstance =
     \<lparr>setupState = [''count'' \<mapsto> VNum 1],
      props = [''count'' \<mapsto> VNum 2, ''title'' \<mapsto> VStr ''t''],
      data = [''count'' \<mapsto> VNum 3, ''title'' \<mapsto> VStr ''d'', ''items'' \<mapsto> VNum 4],
      propsOptions = Some [''count'' \<mapsto> VNull, ''title'' \<mapsto> VNull]\<rparr>"

section \<open>runtime-dom/index.ts: mounting an application\<close>

text \<open>
  An element of the host tree is known by its number. \<open>containerOrSelector\<close> is an element
  or a selector string. \<open>document.querySelector\<close> answers a selector with an element or
  \<open>null\<close>, or throws on a selector it cannot parse; the document is that function.
\<close>

type_synonym element = nat

datatype container = Selector string | Element element

datatype dom_error = SyntaxError

type_synonym document = "string \<Rightarrow> dom_error + element option"

text \<open>
  The renderer's own \<open>mount\<close> (runtime-core) is not in the source: it is the parameter
  \<open>rendererMount\<close>, acting on what it mounts into. \<open>mountCalls\<close> lists the containers it
  has been called with, in order.
\<close>

record 'w app =
  world :: 'w
  mountCalls :: "element list"

definition normalizeContainer :: "document \<Rightarrow> container \<Rightarrow> dom_error + element option" where
  "normalizeContainer doc c =
     (case c of
        Selector sel \<Rightarrow> doc sel
      | Element el \<Rightarrow> Inr (Some el))"

text \<open>
  The \<open>app.mount\<close> that \<open>createApp\<close> installs: its result value and the application after
  the call, or the exception that escaped.
\<close>

definition createApp_mount ::
  "(element \<Rightarrow> 'w \<Rightarrow> 'w) \<Rightarrow> document \<Rightarrow> container \<Rightarrow> 'w app \<Rightarrow> dom_error + (val \<times> 'w app)" where
  "createApp_mount rendererMount doc containerOrSelector a =
     (case normalizeContainer doc containerOrSelector of
        Inl e \<Rightarrow> Inl e
      | Inr None \<Rightarrow> Inr (VUndefined, a)
      | Inr (Some c) \<Rightarrow>
          Inr (VUndefined,
               a\<lparr>world := rendererMount c (world a), mountCalls := mountCalls a @ [c]\<rparr>))"

text \<open>A document in which \<open>#app\<close> is element 7 and nothing else matches.\<close>

definition exampleDocument :: document where
  "exampleDocument sel =
     (if sel = [] then Inl SyntaxError
      else if sel = ''#app'' then Inr (Some 7)
      else Inr None)"

section \<open>The dependency store\<close>

text \<open>
  Modelled from the spec: the reactivity engine itself (the dependency store with \<open>track\<close>
  and \<open>trigger\<close>, effects and their scheduler, and the property traps of
  \<open>mutableHandlers\<close>) is not in the source. The definitions of this section and of the
  next two follow sections 3, 4.1, 4.2, 4.3 and 5 of the specification.

  An effect is known by its index in the table of effects. A dependency key is a pair of
  a wrapper's identity and a property key; \<open>ITERATE_KEY\<close> is the reserved sentinel key for
  "iterate/size", distinct from every property name.
\<close>

type_synonym eid = nat

datatype depkey = Key string | ITERATE_KEY

type_synonym dep = "nat \<times> depkey"

text \<open>
  Modelled from the spec: what can be observed of a run. \<open>Invoked l e\<close>: effect \<open>e\<close> was
  run by a trigger issued while \<open>l\<close> effects were running (\<open>l = 0\<close>: by a writer outside
  every effect); \<open>Deferred l e\<close>: its custom scheduling function was called instead;
  \<open>ReadBy e d\<close>: the function of effect \<open>e\<close> read the dependency key \<open>d\<close>.
\<close>

datatype event =
    Invoked nat eid
  | Deferred nat eid
  | ReadBy eid dep

text \<open>
  Modelled from the spec: the function an effect re-runs, as the sequence of its
  dealings with reactive state. It reads a property of a value and goes on according to
  what it read, it asks for the keys of a value, it assigns to a property, or it deletes
  a property.
\<close>

datatype prog =
    Done
  | Get val string "val \<Rightarrow> prog"
  | Keys val "string list \<Rightarrow> prog"
  | Set val string val prog
  | Delete val string prog

text \<open>
  Modelled from the spec: an effect owns the function it re-runs and an optional
  scheduling override, which acts on the queue of pending jobs. Its key set is part of
  the process-wide state below. Every effect of the table is active: stopping is left out.
\<close>

record effect =
  fn :: prog
  scheduler :: "(eid list \<Rightarrow> eid list) option"

text \<open>
  Modelled from the spec: the process-wide state. \<open>subscribers\<close> is the dependency store
  (the subscriber set of each key, in order of insertion and without duplicates),
  \<open>effectKeys\<close> the keys each effect currently subscribes to, \<open>running\<close> the effects being
  run, the innermost first (its head is the "currently running" marker, its tail what the
  marker is restored to), \<open>pending\<close> the scheduler's queue, \<open>journal\<close> the events so far.
\<close>

record runtime = heap +
  subscribers :: "dep \<Rightarrow> eid list"
  effectKeys :: "eid \<Rightarrow> dep list"
  running :: "eid list"
  pending :: "eid list"
  journal :: "event list"

definition addOnce :: "'a \<Rightarrow> 'a list \<Rightarrow> 'a list" where
  "addOnce x xs = (if x \<in> set xs then xs else xs @ [x])"

text \<open>The first occurrence of each element, in order.\<close>

fun dedup :: "'a list \<Rightarrow> 'a list" where
  "dedup [] = []"
| "dedup (x # xs) = x # dedup (removeAll x xs)"

text \<open>Records in the journal that the running effect read a key.\<close>

definition noteRead :: "dep \<Rightarrow> runtime \<Rightarrow> runtime" where
  "noteRead d s =
     (case running s of
        [] \<Rightarrow> s
      | e # outer \<Rightarrow> s\<lparr>journal := journal s @ [ReadBy e d]\<rparr>)"

text \<open>
  Modelled from the spec: \<open>track\<close> (section 4.2) does nothing when no effect is running;
  otherwise it adds the running effect to the subscriber set of the key, and the key to
  the key set of the running effect.
\<close>

definition track :: "dep \<Rightarrow> runtime \<Rightarrow> runtime" where
  "track d s =
     (case running s of
        [] \<Rightarrow> s
      | e # outer \<Rightarrow>
          s\<lparr>subscribers := (subscribers s)(d := addOnce e (subscribers s d)),
            effectKeys := (effectKeys s)(e := addOnce d (effectKeys s e))\<rparr>)"

text \<open>
  Modelled from the spec: the cleanup step (section 4.3, step 1) removes the effect from
  the subscriber sets of the keys it recorded and clears its key set.
\<close>

definition cleanupEffect :: "eid \<Rightarrow> runtime \<Rightarrow> runtime" where
  "cleanupEffect e s =
     s\<lparr>subscribers :=
          (\<lambda>d. if d \<in> set (effectKeys s e) then removeAll e (subscribers s d)
               else subscribers s d),
       effectKeys := (effectKeys s)(e := [])\<rparr>"

section \<open>Reads and writes through a wrapper\<close>

definition member_of :: "(string \<times> val) list \<Rightarrow> string \<Rightarrow> val" where
  "member_of ps key = (case map_of ps key of None \<Rightarrow> VUndefined | Some v \<Rightarrow> v)"

text \<open>
  Modelled from the spec: a property read (section 4.1). Through a wrapper: the key that
  asks for the raw value returns the target and records nothing; any other key records a
  dependency on (this wrapper, key), reads the property of the target, and wraps the
  result when it is an aggregate. On a value that is not a wrapper the read passes
  through (section 7).
\<close>

fun getProp :: "val \<Rightarrow> string \<Rightarrow> runtime \<Rightarrow> val \<times> runtime" where
  "getProp (VProxy p t) key s =
     (if key = ReactiveFlags_RAW then (t, s)
      else (case getProp t key (track (p, Key key) (noteRead (p, Key key) s)) of
              (res, s1) \<Rightarrow> reactive res s1))"
| "getProp (VObj a) key s = (member_of (properties (objs s a)) key, s)"
| "getProp v key s = (VUndefined, s)"

text \<open>
  Modelled from the spec: asking a wrapper for its keys is a read of the sentinel key of
  that wrapper.
\<close>

fun ownKeys :: "val \<Rightarrow> runtime \<Rightarrow> string list \<times> runtime" where
  "ownKeys (VProxy p t) s = ownKeys t (track (p, ITERATE_KEY) (noteRead (p, ITERATE_KEY) s))"
| "ownKeys (VObj a) s = (map fst (properties (objs s a)), s)"
| "ownKeys v s = ([], s)"

text \<open>Assignment to a property: in place when the key exists, a new last property otherwise.\<close>

fun assign :: "(string \<times> val) list \<Rightarrow> string \<Rightarrow> val \<Rightarrow> (string \<times> val) list" where
  "assign [] key v = [(key, v)]"
| "assign ((k, old) # ps) key v = (if k = key then (k, v) # ps else (k, old) # assign ps key v)"

text \<open>The value a property has now, read without any tracking.\<close>

fun ownProp :: "(nat \<Rightarrow> obj) \<Rightarrow> val \<Rightarrow> string \<Rightarrow> val option" where
  "ownProp os (VProxy p t) key = ownProp os t key"
| "ownProp os (VObj a) key = map_of (properties (os a)) key"
| "ownProp os v key = None"

definition effectAt :: "effect list \<Rightarrow> eid \<Rightarrow> effect option" where
  "effectAt E e = (if e < length E then Some (E ! e) else None)"

text \<open>
  Modelled from the spec: the batch of a trigger (section 4.2): the subscriber set of the
  key, and that of the sentinel key when the write changed the structure, collected
  without duplicates.
\<close>

definition triggerBatch :: "runtime \<Rightarrow> dep \<Rightarrow> bool \<Rightarrow> eid list" where
  "triggerBatch s d structural =
     dedup (subscribers s d @ (if structural then subscribers s (fst d, ITERATE_KEY) else []))"

text \<open>
  Modelled from the spec: the scheduler's treatment of one subscriber (section 4.3). A
  re-entrant run of an effect that is already running is prevented. An effect with a
  custom scheduling function has that function called instead of being run; any other
  effect is run at once. \<open>run\<close> is the procedure that runs an effect.
\<close>

definition invoke ::
  "effect list \<Rightarrow> (eid \<Rightarrow> runtime \<Rightarrow> runtime option) \<Rightarrow> eid \<Rightarrow> runtime \<Rightarrow> runtime option" where
  "invoke E run e s =
     (if e \<in> set (running s) then Some s
      else (case effectAt E e of
              None \<Rightarrow> Some s
            | Some eff \<Rightarrow>
                (case scheduler eff of
                   Some sched \<Rightarrow>
                     Some (s\<lparr>pending := sched (pending s),
                             journal := journal s @ [Deferred (length (running s)) e]\<rparr>)
                 | None \<Rightarrow>
                     run e (s\<lparr>journal := journal s @ [Invoked (length (running s)) e]\<rparr>))))"

text \<open>
  Modelled from the spec: the scheduler goes through the batch in its order, one
  subscriber after the other.
\<close>

fun invokeAll ::
  "effect list \<Rightarrow> (eid \<Rightarrow> runtime \<Rightarrow> runtime option) \<Rightarrow> eid list \<Rightarrow> runtime \<Rightarrow> runtime option" where
  "invokeAll E run [] s = Some s"
| "invokeAll E run (e # es) s =
     (case invoke E run e s of None \<Rightarrow> None | Some s1 \<Rightarrow> invokeAll E run es s1)"

text \<open>
  Modelled from the spec: \<open>trigger\<close> (section 4.2) collects the batch and hands it to the
  scheduler.
\<close>

definition trigger ::
  "effect list \<Rightarrow> (eid \<Rightarrow> runtime \<Rightarrow> runtime option) \<Rightarrow> dep \<Rightarrow> bool \<Rightarrow> runtime \<Rightarrow> runtime option" where
  "trigger E run d structural s = invokeAll E run (triggerBatch s d structural) s"

text \<open>
  A write is an assignment \<open>o[key] = v\<close> or a removal \<open>delete o[key]\<close>.
\<close>

datatype update = Assign val | Remove

text \<open>What a write does to the own properties of an ordinary object.\<close>

definition applyUpdate :: "(string \<times> val) list \<Rightarrow> string \<Rightarrow> update \<Rightarrow> (string \<times> val) list" where
  "applyUpdate ps key u =
     (case u of
        Assign v \<Rightarrow> assign ps key v
      | Remove \<Rightarrow> filter (\<lambda>kv. fst kv \<noteq> key) ps)"

text \<open>
  Modelled from the spec: a write triggers dependents only if it changes something
  (section 4.1): an assignment when the new value differs from the old one (or the key is
  new), a removal when the key was there.
\<close>

definition writeChanges :: "(nat \<Rightarrow> obj) \<Rightarrow> val \<Rightarrow> string \<Rightarrow> update \<Rightarrow> bool" where
  "writeChanges os t key u =
     (case u of
        Assign v \<Rightarrow> ownProp os t key \<noteq> Some v
      | Remove \<Rightarrow> ownProp os t key \<noteq> None)"

text \<open>
  Modelled from the spec: whether a write that changes something also changes the
  structure (section 4.1): it adds a key (an assignment to a key that was not there; a
  new index of an ordered sequence is such a key), it removes a key, or it changes the
  length of an ordered sequence (an assignment of another value to \<open>length\<close> of a target
  tagged \<open>Array\<close>).
\<close>

definition changesStructure :: "(nat \<Rightarrow> obj) \<Rightarrow> val \<Rightarrow> string \<Rightarrow> update \<Rightarrow> bool" where
  "changesStructure os t key u =
     (case u of
        Assign v \<Rightarrow>
          ownProp os t key = None \<or> (builtinTag os t = ''Array'' \<and> key = ''length'')
      | Remove \<Rightarrow> True)"

text \<open>
  Modelled from the spec: a property write (section 4.1). Through a wrapper the write is
  applied to the target, whether it changes anything or not; when it does, the
  subscribers of (wrapper, key) are triggered, together with those of the sentinel key
  when the write changes the structure. On a value that is not a wrapper the write
  passes through.
\<close>

fun writeProp ::
  "effect list \<Rightarrow> (eid \<Rightarrow> runtime \<Rightarrow> runtime option) \<Rightarrow> val \<Rightarrow> string \<Rightarrow> update \<Rightarrow> runtime
     \<Rightarrow> runtime option" where
  "writeProp E run (VProxy p t) key u s =
     (case writeProp E run t key u s of
        None \<Rightarrow> None
      | Some s1 \<Rightarrow>
          if writeChanges (objs s) t key u
          then trigger E run (p, Key key) (changesStructure (objs s) t key u) s1
          else Some s1)"
| "writeProp E run (VObj a) key u s =
     Some (s\<lparr>objs := (objs s)(a := (objs s a)\<lparr>properties := applyUpdate (properties (objs s a)) key u\<rparr>)\<rparr>)"
| "writeProp E run w key u s = Some s"

definition setProp ::
  "effect list \<Rightarrow> (eid \<Rightarrow> runtime \<Rightarrow> runtime option) \<Rightarrow> val \<Rightarrow> string \<Rightarrow> val \<Rightarrow> runtime
     \<Rightarrow> runtime option" where
  "setProp E run w key v s = writeProp E run w key (Assign v) s"

definition deleteProp ::
  "effect list \<Rightarrow> (eid \<Rightarrow> runtime \<Rightarrow> runtime option) \<Rightarrow> val \<Rightarrow> string \<Rightarrow> runtime
     \<Rightarrow> runtime option" where
  "deleteProp E run w key s = writeProp E run w key Remove s"

section \<open>Running an effect\<close>

text \<open>
  Modelled from the spec: the execution of an effect's function; every read and write
  goes through the traps above.
\<close>

primrec execP ::
  "effect list \<Rightarrow> (eid \<Rightarrow> runtime \<Rightarrow> runtime option) \<Rightarrow> prog \<Rightarrow> runtime \<Rightarrow> runtime option" where
  "execP E run Done s = Some s"
| "execP E run (Get w key k) s = (case getProp w key s of (v, s1) \<Rightarrow> execP E run (k v) s1)"
| "execP E run (Keys w k) s = (case ownKeys w s of (ks, s1) \<Rightarrow> execP E run (k ks) s1)"
| "execP E run (Set w key v rest) s =
     (case setProp E run w key v s of None \<Rightarrow> None | Some s1 \<Rightarrow> execP E run rest s1)"
| "execP E run (Delete w key rest) s =
     (case deleteProp E run w key s of None \<Rightarrow> None | Some s1 \<Rightarrow> execP E run rest s1)"

text \<open>
  Modelled from the spec: the run procedure (section 4.3): cleanup, mark the effect as
  the running one, execute its function, restore the marker to the effect that was
  running before. The first argument after the table bounds the depth of runs nested in
  one another; \<open>None\<close> says that the bound was too small.
\<close>

primrec runEffect :: "effect list \<Rightarrow> nat \<Rightarrow> eid \<Rightarrow> runtime \<Rightarrow> runtime option" where
  "runEffect E 0 e s = None"
| "runEffect E (Suc n) e s =
     (case effectAt E e of
        None \<Rightarrow> Some s
      | Some eff \<Rightarrow>
          (case execP E (runEffect E n) (fn eff)
                  ((cleanupEffect e s)\<lparr>running := e # running s\<rparr>) of
             None \<Rightarrow> None
           | Some s1 \<Rightarrow> Some (s1\<lparr>running := tl (running s1)\<rparr>)))"

section \<open>Observations on a run\<close>

text \<open>The store and the key sets agree: an effect subscribes to exactly its keys.\<close>

definition consistent :: "runtime \<Rightarrow> bool" where
  "consistent s = (\<forall>e d. (e \<in> set (subscribers s d)) = (d \<in> set (effectKeys s e)))"


text \<open>The events between an earlier and a later state.\<close>

definition newEvents :: "runtime \<Rightarrow> runtime \<Rightarrow> event list" where
  "newEvents s s' = drop (length (journal s)) (journal s')"

text \<open>The keys that an effect read, according to a list of events.\<close>

definition readsOf :: "eid \<Rightarrow> event list \<Rightarrow> dep set" where
  "readsOf e evs = {d. ReadBy e d \<in> set evs}"

fun invocationAt :: "nat \<Rightarrow> event \<Rightarrow> bool" where
  "invocationAt L (Invoked l e) = (l = L)"
| "invocationAt L (Deferred l e) = (l = L)"
| "invocationAt L (ReadBy e d) = False"

fun deeper :: "nat \<Rightarrow> event \<Rightarrow> bool" where
  "deeper L (Invoked l e) = (L \<le> l)"
| "deeper L (Deferred l e) = (L \<le> l)"
| "deeper L (ReadBy e d) = True"

text \<open>The event that a trigger at level \<open>L\<close> leaves for a subscriber.\<close>

definition invocationOf :: "effect list \<Rightarrow> nat \<Rightarrow> eid \<Rightarrow> event" where
  "invocationOf E L e =
     (case scheduler (E ! e) of None \<Rightarrow> Invoked L e | Some sched \<Rightarrow> Deferred L e)"

text \<open>The effects run by triggers at level \<open>L\<close>, in the order of their runs.\<close>

fun ranAt :: "nat \<Rightarrow> event list \<Rightarrow> eid list" where
  "ranAt L [] = []"
| "ranAt L (Invoked l e # evs) = (if l = L then e # ranAt L evs else ranAt L evs)"
| "ranAt L (Deferred l e # evs) = ranAt L evs"
| "ranAt L (ReadBy e d # evs) = ranAt L evs"

definition invokable :: "effect list \<Rightarrow> runtime \<Rightarrow> eid \<Rightarrow> bool" where
  "invokable E s e = (e \<notin> set (running s) \<and> e < length E)"

text \<open>
  What every step of a run preserves: the running effects, the agreement of store and key
  sets, the journal as a prefix; the new events come from level \<open>L\<close> or deeper; and every
  running effect has gained exactly the keys that the new events say it read.
\<close>

definition frame :: "nat \<Rightarrow> runtime \<Rightarrow> runtime \<Rightarrow> bool" where
  "frame L s s' =
     (running s' = running s \<and> (consistent s \<longrightarrow> consistent s') \<and>
      (\<exists>j. journal s' = journal s @ j \<and> list_all (deeper L) j \<and>
           (\<forall>x. x \<in> set (running s) \<longrightarrow>
                set (effectKeys s' x) = set (effectKeys s x) \<union> readsOf x j)))"

definition goodRun :: "(eid \<Rightarrow> runtime \<Rightarrow> runtime option) \<Rightarrow> bool" where
  "goodRun run =
     (\<forall>e s s'. e \<notin> set (running s) \<longrightarrow> run e s = Some s' \<longrightarrow>
                frame (Suc (length (running s))) s s')"


section \<open>Example effects\<close>

definition emptyRuntime :: runtime where
  "emptyRuntime =
     \<lparr>objs = exampleObjs, nextProxy = 0, subscribers = (\<lambda>d. []), effectKeys = (\<lambda>e. []),
      running = [], pending = [], journal = []\<rparr>"

text \<open>A wrapper of the empty record at address 0.\<close>

definition counter :: val where
  "counter = VProxy 100 (VObj 0)"





text \<open>A wrapper of the array at address 5.\<close>

definition items :: val where
  "items = VProxy 101 (VObj 5)"

text \<open>
  Three effects on that array: the first asks for its keys, the second reads its
  \<open>length\<close>, the third reads its element \<open>0\<close>.
\<close>

definition listWatchers :: "effect list" where
  "listWatchers =
     [\<lparr>fn = Keys items (\<lambda>ks. Done), scheduler = None\<rparr>,
      \<lparr>fn = Get items ''length'' (\<lambda>v. Done), scheduler = None\<rparr>,
      \<lparr>fn = Get items ''0'' (\<lambda>v. Done), scheduler = None\<rparr>]"

text \<open>The state after each of the three has run once from the empty state.\<close>

definition listWatched :: runtime where
  "listWatched =
     the (runEffect listWatchers 3 2
       (the (runEffect listWatchers 3 1 (the (runEffect listWatchers 3 0 emptyRuntime)))))"

section \<open>Properties of the raw type and of the wrapping decision\<close>

lemma toRawType_builtinTag: "toRawType os v = builtinTag os v"
  by (simp add: toRawType_def toTypeString_def slice_def Let_def)

lemma getTargetType_COMMON_iff:
  "getTargetType os v = COMMON \<longleftrightarrow>
     isExtensible os v \<and> (builtinTag os v = ''Object'' \<or> builtinTag os v = ''Array'')"
  by (simp add: getTargetType_def targetTypeMap_def toRawType_builtinTag)

lemma builtinTag_props_update:
  "builtinTag (os(a := (os a)\<lparr>properties := f\<rparr>)) v = builtinTag os v"
  by (induction v) simp_all

lemma isExtensible_props_update:
  "isExtensible (os(a := (os a)\<lparr>properties := f\<rparr>)) v = isExtensible os v"
  by (induction v) simp_all

lemma isExtensible_truthy: "isExtensible os v \<Longrightarrow> truthy v"
  by (cases v) simp_all

lemma COMMON_truthy: "getTargetType os v = COMMON \<Longrightarrow> truthy v"
  by (auto simp add: getTargetType_COMMON_iff dest: isExtensible_truthy)

lemma getTargetType_INVALID_iff:
  "getTargetType os v = INVALID \<longleftrightarrow> getTargetType os v \<noteq> COMMON"
  by (cases "getTargetType os v") simp_all

lemma getTargetType_VProxy: "getTargetType os (VProxy p t) = getTargetType os t"
  by (simp add: getTargetType_def toRawType_builtinTag)

lemma reactive_COMMON:
  "getTargetType (objs h) v = COMMON \<Longrightarrow>
   reactive v h = (VProxy (nextProxy h) v, h\<lparr>nextProxy := Suc (nextProxy h)\<rparr>)"
  by (simp add: reactive_def)

lemma toRaw_VProxy: "truthy t \<Longrightarrow> toRaw os (VProxy p t) = toRaw os t"
  by (subst toRaw.simps) (simp add: rawOf_def)

lemma toRaw_unmarked: "\<not> truthy (rawOf os v) \<Longrightarrow> toRaw os v = Some v"
  by (subst toRaw.simps) simp

lemma toRaw_marked: "truthy (rawOf os v) \<Longrightarrow> toRaw os v = toRaw os (rawOf os v)"
  by (subst toRaw.simps) simp

lemma toRaw_chain:
  "\<not> truthy (rawOf os ((rawOf os ^^ n) v)) \<Longrightarrow>
   (\<forall>i<n. truthy (rawOf os ((rawOf os ^^ i) v))) \<Longrightarrow>
   toRaw os v = Some ((rawOf os ^^ n) v)"
proof (induction n arbitrary: v)
  case 0
  then show ?case by (simp add: toRaw_unmarked)
next
  case (Suc n)
  have m: "truthy (rawOf os v)" using Suc.prems(2) [rule_format, of 0] by simp
  have "toRaw os (rawOf os v) = Some ((rawOf os ^^ n) (rawOf os v))"
  proof (rule Suc.IH)
    show "\<not> truthy (rawOf os ((rawOf os ^^ n) (rawOf os v)))"
      using Suc.prems(1) by (simp add: funpow_swap1)
    show "\<forall>i<n. truthy (rawOf os ((rawOf os ^^ i) (rawOf os v)))"
      using Suc.prems(2) [rule_format, of "Suc _"] by (simp add: funpow_swap1)
  qed
  then show ?case using m by (simp add: toRaw_marked funpow_swap1)
qed

lemma toRaw_no_cycle:
  assumes "toRaw os v = Some y"
  shows "\<not> (truthy v \<and> rawOf os v = v)"
proof (rule toRaw.raw_induct [where P = "\<lambda>os v y. \<not> (truthy v \<and> rawOf os v = v)", OF _ assms])
  fix toRaw' os observed y
  assume ih: "\<And>os observed y. toRaw' os observed = Some y \<Longrightarrow>
      \<not> (truthy observed \<and> rawOf os observed = observed)"
    and step: "(if truthy (rawOf os observed) then toRaw' os (rawOf os observed)
      else Some observed) = Some y"
  show "\<not> (truthy observed \<and> rawOf os observed = observed)"
  proof
    assume c: "truthy observed \<and> rawOf os observed = observed"
    then have "toRaw' os observed = Some y" using step by simp
    then show False using ih c by blast
  qed
qed

lemma toRaw_self_marked: "truthy v \<Longrightarrow> rawOf os v = v \<Longrightarrow> toRaw os v = None"
  using toRaw_no_cycle [of os v] by (cases "toRaw os v") auto

lemma truthy_wrappers: "truthy x \<Longrightarrow> truthy (foldr VProxy ps x)"
  by (cases ps) simp_all

lemma toRaw_wrappers: "truthy x \<Longrightarrow> toRaw os (foldr VProxy ps x) = toRaw os x"
  by (induction ps) (simp_all add: toRaw_VProxy truthy_wrappers)

lemma toRaw_reactive:
  "toRaw (objs (snd (reactive x h))) (fst (reactive x h)) = toRaw (objs h) x"
proof (cases "getTargetType (objs h) x")
  case INVALID
  then show ?thesis by (simp add: reactive_def)
next
  case COMMON
  then have "truthy x" by (rule COMMON_truthy)
  then show ?thesis using COMMON by (simp add: reactive_COMMON toRaw_VProxy)
qed

lemma exampleObjs_simps:
  "exampleObjs 0 = emptyObject"
  "exampleObjs 6 = \<lparr>className = ''Object'', extensible = True,
              properties = [(ReactiveFlags_RAW, VObj 0)]\<rparr>"
  "exampleObjs 2 = \<lparr>className = ''Map'', extensible = True, properties = []\<rparr>"
  "exampleObjs 3 = \<lparr>className = ''HTMLInputElement'', extensible = True,
              properties = [(''value'', VStr ''abc'')]\<rparr>"
  by (simp_all add: exampleObjs_def)

text \<open>
  Extensibility is tested before the tag: the frozen record at address 4 is tagged
  \<open>Object\<close> and is returned unwrapped all the same.
\<close>

lemma reactive_frozen_example:
  "toRawType (objs exampleHeap) (VObj 4) = ''Object''
   \<and> reactive (VObj 4) exampleHeap = (VObj 4, exampleHeap)"
  by (simp add: reactive_def getTargetType_def toRawType_builtinTag exampleHeap_def
      exampleObjs_def)

section \<open>C1: what is not a plain aggregate passes through\<close>

text \<open>
  Claim C1. \<open>reactive\<close> returns its argument itself, and constructs nothing, whenever the
  raw type of the argument is neither \<open>Object\<close> nor \<open>Array\<close>: primitives (\<open>Number\<close>,
  \<open>String\<close>, ...), functions (\<open>Function\<close>) and objects owned by the host (\<open>HTMLInputElement\<close>,
  ...). The decision reads the type tag and not the shape: replacing the properties of
  any object of the store by any others leaves the target type of every value as it was.
\<close>

theorem reactive_passthrough:
  "(toRawType (objs h) raw \<noteq> ''Object'' \<and> toRawType (objs h) raw \<noteq> ''Array''
      \<longrightarrow> reactive raw h = (raw, h))
   \<and> getTargetType ((objs h)(a := (objs h a)\<lparr>properties := f\<rparr>)) raw
       = getTargetType (objs h) raw"
  by (simp add: reactive_def getTargetType_def targetTypeMap_def toRawType_builtinTag
      builtinTag_props_update isExtensible_props_update)

text \<open>Witness for C1: the input element at address 3 is returned unwrapped.\<close>

theorem reactive_passthrough_witness:
  "toRawType (objs exampleHeap) (VObj 3) \<noteq> ''Object''
   \<and> toRawType (objs exampleHeap) (VObj 3) \<noteq> ''Array''
   \<and> reactive (VObj 3) exampleHeap = (VObj 3, exampleHeap)"
  using reactive_passthrough [of exampleHeap "VObj 3" 0 "[]"]
  by (simp add: toRawType_builtinTag exampleHeap_def exampleObjs_simps)

section \<open>C2: every call constructs a wrapper\<close>

text \<open>
  Counterexample for C2 as stated. The empty record at address 0 is a plain aggregate.
  Wrapping its wrapper gives a value different from the wrapper, and wrapping the record
  a second time gives a value different from the first wrapper: \<open>reactive\<close> keeps no
  table from raw objects to wrappers and does not look whether its argument is a wrapper.
\<close>

theorem reactive_idempotent_counterexample:
  "getTargetType (objs exampleHeap) (VObj 0) = COMMON
   \<and> fst (reactive (fst (reactive (VObj 0) exampleHeap)) (snd (reactive (VObj 0) exampleHeap)))
       \<noteq> fst (reactive (VObj 0) exampleHeap)
   \<and> fst (reactive (VObj 0) (snd (reactive (VObj 0) exampleHeap)))
       \<noteq> fst (reactive (VObj 0) exampleHeap)"
  by (simp add: reactive_def getTargetType_INVALID_iff getTargetType_COMMON_iff exampleHeap_def
      exampleObjs_simps emptyObject_def)

text \<open>
  Claim C2, amended. For every value \<open>x\<close> of target type \<open>COMMON\<close> (an extensible value
  tagged \<open>Object\<close> or \<open>Array\<close>), \<open>reactive x\<close> is a newly constructed proxy whose target is
  \<open>x\<close>; \<open>reactive (reactive x)\<close> is a further proxy whose target is the first one, and a
  second \<open>reactive x\<close> is a further proxy over \<open>x\<close>; neither is identity-equal to the first.
  Wrapping is idempotent up to unwrapping only: \<open>toRaw\<close> gives the same for all three.
\<close>

theorem reactive_constructs_new_wrapper:
  assumes "getTargetType (objs h) x = COMMON"
  shows "reactive x h = (VProxy (nextProxy h) x, h\<lparr>nextProxy := Suc (nextProxy h)\<rparr>)
    \<and> fst (reactive (fst (reactive x h)) (snd (reactive x h)))
        = VProxy (Suc (nextProxy h)) (VProxy (nextProxy h) x)
    \<and> fst (reactive (fst (reactive x h)) (snd (reactive x h))) \<noteq> fst (reactive x h)
    \<and> fst (reactive x (snd (reactive x h))) = VProxy (Suc (nextProxy h)) x
    \<and> fst (reactive x (snd (reactive x h))) \<noteq> fst (reactive x h)
    \<and> toRaw (objs h) (fst (reactive (fst (reactive x h)) (snd (reactive x h))))
        = toRaw (objs h) (fst (reactive x h))
    \<and> toRaw (objs h) (fst (reactive x (snd (reactive x h))))
        = toRaw (objs h) (fst (reactive x h))"
proof -
  have t: "truthy x" using assms by (rule COMMON_truthy)
  show ?thesis using assms t by (simp add: reactive_COMMON getTargetType_VProxy toRaw_VProxy)
qed

text \<open>Witness for C2: the array at address 5.\<close>

theorem reactive_constructs_new_wrapper_witness:
  "getTargetType (objs exampleHeap) (VObj 5) = COMMON
   \<and> reactive (VObj 5) exampleHeap = (VProxy 0 (VObj 5), exampleHeap\<lparr>nextProxy := Suc 0\<rparr>)
   \<and> fst (reactive (VObj 5) (snd (reactive (VObj 5) exampleHeap))) = VProxy (Suc 0) (VObj 5)"
proof -
  have c: "getTargetType (objs exampleHeap) (VObj 5) = COMMON"
    by (simp add: getTargetType_COMMON_iff exampleHeap_def exampleObjs_def)
  have n: "nextProxy exampleHeap = 0" by (simp add: exampleHeap_def)
  show ?thesis using c reactive_constructs_new_wrapper [OF c] unfolding n by blast
qed

section \<open>C3: toRaw follows the raw markers\<close>

text \<open>
  Counterexample for C3 as stated. The record at address 6 is a plain aggregate with a
  property \<open>__v_raw\<close> of its own, which refers to the record at address 0. Unwrapping its
  wrapper does not give the record back: \<open>toRaw\<close> goes on through the record's own marker
  and returns the record at address 0. And on the record at address 7, whose marker refers
  to the record itself, \<open>toRaw\<close> does not return.
\<close>

theorem toRaw_wrap_counterexample:
  "getTargetType (objs exampleHeap) (VObj 6) = COMMON
   \<and> toRaw (objs (snd (reactive (VObj 6) exampleHeap))) (fst (reactive (VObj 6) exampleHeap))
       = Some (VObj 0)
   \<and> toRaw (objs (snd (reactive (VObj 6) exampleHeap))) (fst (reactive (VObj 6) exampleHeap))
       \<noteq> Some (VObj 6)
   \<and> toRaw exampleObjs (VObj 7) = None"
proof -
  have "toRaw exampleObjs (VObj 7) = None"
    by (rule toRaw_self_marked) (simp_all add: rawOf_def exampleObjs_def)
  then show ?thesis
    by (simp add: reactive_def getTargetType_COMMON_iff exampleHeap_def exampleObjs_simps
        getTargetType_INVALID_iff emptyObject_def toRaw_VProxy toRaw_marked toRaw_unmarked
        rawOf_def)
qed

text \<open>
  Claim C3, amended. Write \<open>rawOf\<close> for one step \<open>observed && observed[ReactiveFlags.RAW]\<close>.
  If the \<open>n\<close>-th value of the chain from \<open>observed\<close> is the first whose step is falsy (no
  marker, or a falsy one), \<open>toRaw observed\<close> returns, and returns that value. So a chain of
  nested wrappers of any length over a value \<open>x\<close> without a truthy marker unwraps to \<open>x\<close>,
  and \<open>toRaw (reactive x)\<close> is \<open>x\<close> for every value \<open>x\<close> without a truthy marker of its own,
  a plain aggregate or not.
\<close>

theorem toRaw_first_unmarked:
  "(\<not> truthy (rawOf os ((rawOf os ^^ n) observed))
      \<and> (\<forall>i<n. truthy (rawOf os ((rawOf os ^^ i) observed)))
      \<longrightarrow> toRaw os observed = Some ((rawOf os ^^ n) observed))
   \<and> (truthy x \<and> \<not> truthy (rawOf os x) \<longrightarrow> toRaw os (foldr VProxy ps x) = Some x)
   \<and> (\<not> truthy (rawOf (objs h) x)
      \<longrightarrow> toRaw (objs (snd (reactive x h))) (fst (reactive x h)) = Some x)"
proof (intro conjI impI)
  assume "\<not> truthy (rawOf os ((rawOf os ^^ n) observed))
      \<and> (\<forall>i<n. truthy (rawOf os ((rawOf os ^^ i) observed)))"
  then show "toRaw os observed = Some ((rawOf os ^^ n) observed)"
    by (simp add: toRaw_chain)
next
  assume "truthy x \<and> \<not> truthy (rawOf os x)"
  then show "toRaw os (foldr VProxy ps x) = Some x"
    by (simp add: toRaw_wrappers toRaw_unmarked)
next
  assume "\<not> truthy (rawOf (objs h) x)"
  then show "toRaw (objs (snd (reactive x h))) (fst (reactive x h)) = Some x"
    by (simp add: toRaw_reactive toRaw_unmarked)
qed

text \<open>
  Witness for C3: the marked record at address 6 (a chain of length one), two nested
  wrappers over the record at address 0, and the wrapper of the array at address 5.
\<close>

theorem toRaw_first_unmarked_witness:
  "\<not> truthy (rawOf exampleObjs ((rawOf exampleObjs ^^ 1) (VObj 6)))
   \<and> truthy (rawOf exampleObjs ((rawOf exampleObjs ^^ 0) (VObj 6)))
   \<and> toRaw exampleObjs (VObj 6) = Some (VObj 0)
   \<and> truthy (VObj 0) \<and> \<not> truthy (rawOf exampleObjs (VObj 0))
   \<and> toRaw exampleObjs (VProxy 8 (VProxy 9 (VObj 0))) = Some (VObj 0)
   \<and> getTargetType (objs exampleHeap) (VObj 5) = COMMON
   \<and> \<not> truthy (rawOf (objs exampleHeap) (VObj 5))
   \<and> toRaw (objs (snd (reactive (VObj 5) exampleHeap))) (fst (reactive (VObj 5) exampleHeap))
       = Some (VObj 5)"
proof -
  have r1: "rawOf exampleObjs (VObj 6) = VObj 0"
    by (simp add: rawOf_def exampleObjs_simps)
  have r0: "rawOf exampleObjs (VObj 0) = VUndefined"
    by (simp add: rawOf_def exampleObjs_simps emptyObject_def)
  have r5: "rawOf (objs exampleHeap) (VObj 5) = VUndefined"
    by (simp add: rawOf_def exampleHeap_def exampleObjs_def ReactiveFlags_RAW_def)
  have c5: "getTargetType (objs exampleHeap) (VObj 5) = COMMON"
    by (simp add: getTargetType_COMMON_iff exampleHeap_def exampleObjs_def)
  have a: "\<not> truthy (rawOf exampleObjs ((rawOf exampleObjs ^^ 1) (VObj 6)))
      \<and> (\<forall>i<1. truthy (rawOf exampleObjs ((rawOf exampleObjs ^^ i) (VObj 6))))"
    by (simp add: r1 r0)
  have b: "truthy (VObj 0) \<and> \<not> truthy (rawOf exampleObjs (VObj 0))"
    by (simp add: r0)
  have c: "getTargetType (objs exampleHeap) (VObj 5) = COMMON
      \<and> \<not> truthy (rawOf (objs exampleHeap) (VObj 5))"
    by (simp add: r5 c5)
  have t1: "toRaw exampleObjs (VObj 6) = Some (VObj 0)"
    using a toRaw_first_unmarked [of exampleObjs 1 "VObj 6" VNull "[]" exampleHeap]
    by (simp add: r1)
  have t2: "toRaw exampleObjs (VProxy 8 (VProxy 9 (VObj 0))) = Some (VObj 0)"
    using b toRaw_first_unmarked [of exampleObjs 0 VNull "VObj 0" "[8, 9]" exampleHeap]
    by simp
  have t3: "toRaw (objs (snd (reactive (VObj 5) exampleHeap)))
      (fst (reactive (VObj 5) exampleHeap)) = Some (VObj 5)"
    using c toRaw_first_unmarked [of exampleObjs 0 VNull "VObj 5" "[]" exampleHeap]
    by blast
  have a0: "truthy (rawOf exampleObjs ((rawOf exampleObjs ^^ 0) (VObj 6)))"
    by (simp add: r1)
  show ?thesis using a a0 b c t1 t2 t3 by blast
qed

section \<open>C4: collections are not wrapped\<close>

text \<open>
  Counterexample for C4 as stated. The value at address 2 is a \<open>Map\<close>; \<open>reactive\<close> returns
  it as it is and constructs no wrapper.
\<close>

theorem reactive_Map_counterexample:
  "toRawType (objs exampleHeap) (VObj 2) = ''Map''
   \<and> reactive (VObj 2) exampleHeap = (VObj 2, exampleHeap)"
  by (simp add: reactive_def getTargetType_def targetTypeMap_def toRawType_builtinTag
      exampleHeap_def exampleObjs_simps)

text \<open>
  Claim C4, amended. \<open>targetTypeMap\<close> sends the raw types \<open>Map\<close>, \<open>Set\<close>, \<open>WeakMap\<close> and
  \<open>WeakSet\<close> to \<open>INVALID\<close>, so \<open>reactive\<close> returns a collection unchanged and unwrapped;
  no handler set for collections takes part.
\<close>

theorem reactive_collections_pass_through:
  "toRawType (objs h) c \<in> {''Map'', ''Set'', ''WeakMap'', ''WeakSet''} \<Longrightarrow>
   targetTypeMap (toRawType (objs h) c) = INVALID
   \<and> getTargetType (objs h) c = INVALID
   \<and> reactive c h = (c, h)"
  by (auto simp add: reactive_def getTargetType_def targetTypeMap_def)

text \<open>Witness for C4: the \<open>Map\<close> at address 2.\<close>

theorem reactive_collections_pass_through_witness:
  "toRawType (objs exampleHeap) (VObj 2) \<in> {''Map'', ''Set'', ''WeakMap'', ''WeakSet''}
   \<and> getTargetType (objs exampleHeap) (VObj 2) = INVALID
   \<and> reactive (VObj 2) exampleHeap = (VObj 2, exampleHeap)"
proof -
  have t: "toRawType (objs exampleHeap) (VObj 2) \<in> {''Map'', ''Set'', ''WeakMap'', ''WeakSet''}"
    by (simp add: toRawType_builtinTag exampleHeap_def exampleObjs_simps)
  show ?thesis using t reactive_collections_pass_through [OF t] by blast
qed

section \<open>C8 and C9: the public-instance proxy\<close>

text \<open>
  Claim C8. Reading key \<open>k\<close> through \<open>PublicInstanceProxyHandlers.get\<close> gives
  \<open>setupState[k]\<close> if \<open>setupState\<close> owns \<open>k\<close>; otherwise \<open>props[k]\<close> if \<open>k\<close> is declared in
  \<open>propsOptions\<close>; otherwise \<open>data[k]\<close> if \<open>data\<close> owns \<open>k\<close>; otherwise \<open>undefined\<close>. The first
  two cases hold whatever \<open>props\<close> and \<open>data\<close> contain: a setup binding shadows a prop of
  the same name, and a declared prop shadows data of the same name.
\<close>

theorem publicInstance_get_order:
  "(setupState i k = Some s \<longrightarrow> PublicInstanceProxyHandlers_get i k = s)
   \<and> (setupState i k = None \<and> propsOptions i = Some po \<and> po k \<noteq> None
        \<longrightarrow> PublicInstanceProxyHandlers_get i k = member (props i) k)
   \<and> (setupState i k = None \<and> (\<forall>po. propsOptions i = Some po \<longrightarrow> po k = None)
        \<and> data i k = Some d
        \<longrightarrow> PublicInstanceProxyHandlers_get i k = d)
   \<and> (setupState i k = None \<and> (\<forall>po. propsOptions i = Some po \<longrightarrow> po k = None)
        \<and> data i k = None
        \<longrightarrow> PublicInstanceProxyHandlers_get i k = VUndefined)"
  by (auto simp add: PublicInstanceProxyHandlers_get_def hasSetupBinding_def hasOwn_def
      member_def split: option.splits)

lemma exampleInstance_simps:
  "setupState exampleInstance = [''count'' \<mapsto> VNum 1]"
  "props exampleInstance = [''count'' \<mapsto> VNum 2, ''title'' \<mapsto> VStr ''t'']"
  "data exampleInstance =
     [''count'' \<mapsto> VNum 3, ''title'' \<mapsto> VStr ''d'', ''items'' \<mapsto> VNum 4]"
  "propsOptions exampleInstance = Some [''count'' \<mapsto> VNull, ''title'' \<mapsto> VNull]"
  by (simp_all add: exampleInstance_def)

text \<open>
  Witness for C8: \<open>count\<close> is a setup binding, a prop and data; \<open>title\<close> a prop and data;
  \<open>items\<close> data only; \<open>other\<close> is nowhere.
\<close>

theorem publicInstance_get_order_witness:
  "setupState exampleInstance ''count'' = Some (VNum 1)
   \<and> PublicInstanceProxyHandlers_get exampleInstance ''count'' = VNum 1
   \<and> setupState exampleInstance ''title'' = None
   \<and> propsOptions exampleInstance = Some [''count'' \<mapsto> VNull, ''title'' \<mapsto> VNull]
   \<and> [''count'' \<mapsto> VNull, ''title'' \<mapsto> VNull] ''title'' \<noteq> None
   \<and> PublicInstanceProxyHandlers_get exampleInstance ''title'' = VStr ''t''
   \<and> setupState exampleInstance ''items'' = None
   \<and> [''count'' \<mapsto> VNull, ''title'' \<mapsto> VNull] ''items'' = None
   \<and> data exampleInstance ''items'' = Some (VNum 4)
   \<and> PublicInstanceProxyHandlers_get exampleInstance ''items'' = VNum 4
   \<and> setupState exampleInstance ''other'' = None
   \<and> [''count'' \<mapsto> VNull, ''title'' \<mapsto> VNull] ''other'' = None
   \<and> data exampleInstance ''other'' = None
   \<and> PublicInstanceProxyHandlers_get exampleInstance ''other'' = VUndefined"
  using publicInstance_get_order [of exampleInstance "''count''" "VNum 1"]
    publicInstance_get_order [of exampleInstance "''title''" _
      "[''count'' \<mapsto> VNull, ''title'' \<mapsto> VNull]"]
    publicInstance_get_order [of exampleInstance "''items''" _ _ "VNum 4"]
    publicInstance_get_order [of exampleInstance "''other''"]
  by (simp add: exampleInstance_simps member_def)

text \<open>
  Claim C9. \<open>PublicInstanceProxyHandlers.set\<close> always returns \<open>true\<close>. It assigns to
  \<open>setupState[k]\<close> when \<open>setupState\<close> owns \<open>k\<close>, otherwise to \<open>data[k]\<close> when \<open>data\<close> owns
  \<open>k\<close>, and when neither owns \<open>k\<close> the instance is left exactly as it was.
\<close>

theorem publicInstance_set_total:
  "fst (PublicInstanceProxyHandlers_set i k v) = True
   \<and> (setupState i k \<noteq> None
        \<longrightarrow> snd (PublicInstanceProxyHandlers_set i k v) = i\<lparr>setupState := (setupState i)(k \<mapsto> v)\<rparr>)
   \<and> (setupState i k = None \<and> data i k \<noteq> None
        \<longrightarrow> snd (PublicInstanceProxyHandlers_set i k v) = i\<lparr>data := (data i)(k \<mapsto> v)\<rparr>)
   \<and> (setupState i k = None \<and> data i k = None
        \<longrightarrow> snd (PublicInstanceProxyHandlers_set i k v) = i)"
  by (simp add: PublicInstanceProxyHandlers_set_def hasSetupBinding_def hasOwn_def)

text \<open>Witness for C9: a setup binding, a data key, and a key that nobody owns.\<close>

theorem publicInstance_set_total_witness:
  "setupState exampleInstance ''count'' \<noteq> None
   \<and> PublicInstanceProxyHandlers_set exampleInstance ''count'' (VNum 9)
       = (True, exampleInstance\<lparr>setupState := [''count'' \<mapsto> VNum 9]\<rparr>)
   \<and> setupState exampleInstance ''items'' = None \<and> data exampleInstance ''items'' \<noteq> None
   \<and> PublicInstanceProxyHandlers_set exampleInstance ''items'' (VNum 9)
       = (True, exampleInstance\<lparr>data := (data exampleInstance)(''items'' \<mapsto> VNum 9)\<rparr>)
   \<and> setupState exampleInstance ''other'' = None \<and> data exampleInstance ''other'' = None
   \<and> PublicInstanceProxyHandlers_set exampleInstance ''other'' (VNum 9)
       = (True, exampleInstance)"
  using publicInstance_set_total [of exampleInstance "''count''" "VNum 9"]
    publicInstance_set_total [of exampleInstance "''items''" "VNum 9"]
    publicInstance_set_total [of exampleInstance "''other''" "VNum 9"]
  by (simp add: exampleInstance_simps prod_eq_iff)

section \<open>C10: mounting\<close>

text \<open>
  Claim C10. When the document query for the selector answers \<open>null\<close>, \<open>app.mount\<close> returns
  \<open>undefined\<close> without an exception and without a call of the renderer's \<open>mount\<close>: the
  application is unchanged. Given an element, or a selector that the document resolves to
  an element, it calls the renderer's \<open>mount\<close> on that container exactly once.
\<close>

theorem mount_unresolved_is_noop:
  "(doc sel = Inr None
      \<longrightarrow> createApp_mount rendererMount doc (Selector sel) a = Inr (VUndefined, a))
   \<and> createApp_mount rendererMount doc (Element el) a
       = Inr (VUndefined,
              a\<lparr>world := rendererMount el (world a), mountCalls := mountCalls a @ [el]\<rparr>)
   \<and> (doc sel = Inr (Some el)
      \<longrightarrow> createApp_mount rendererMount doc (Selector sel) a
          = Inr (VUndefined,
                 a\<lparr>world := rendererMount el (world a), mountCalls := mountCalls a @ [el]\<rparr>))"
  by (simp add: createApp_mount_def normalizeContainer_def)

text \<open>Witness for C10: a selector that matches nothing, and one that matches element 7.\<close>

theorem mount_unresolved_is_noop_witness:
  "exampleDocument ''#missing'' = Inr None
   \<and> createApp_mount (\<lambda>el w. el # w) exampleDocument (Selector ''#missing'')
         \<lparr>world = [], mountCalls = []\<rparr>
       = Inr (VUndefined, \<lparr>world = [], mountCalls = []\<rparr>)
   \<and> exampleDocument ''#app'' = Inr (Some 7)
   \<and> createApp_mount (\<lambda>el w. el # w) exampleDocument (Selector ''#app'')
         \<lparr>world = [], mountCalls = []\<rparr>
       = Inr (VUndefined, \<lparr>world = [7], mountCalls = [7]\<rparr>)"
  using mount_unresolved_is_noop [of exampleDocument "''#missing''" "\<lambda>el w. el # w"
      "\<lparr>world = [], mountCalls = []\<rparr>" 0]
    mount_unresolved_is_noop [of exampleDocument "''#app''" "\<lambda>el w. el # w"
      "\<lparr>world = [], mountCalls = []\<rparr>" 7]
  by (simp add: exampleDocument_def)

section \<open>Properties of the dependency store\<close>

lemma readsOf_Nil [simp]: "readsOf x [] = {}"
  by (simp add: readsOf_def)

lemma readsOf_append [simp]: "readsOf x (j @ k) = readsOf x j \<union> readsOf x k"
  by (auto simp add: readsOf_def)

lemma readsOf_ReadBy [simp]: "readsOf x [ReadBy e d] = (if x = e then {d} else {})"
  by (auto simp add: readsOf_def)

lemma readsOf_Invoked [simp]: "readsOf x [Invoked l e] = {}" "readsOf x [Deferred l e] = {}"
  by (auto simp add: readsOf_def)

lemma deeper_mono: "L \<le> L' \<Longrightarrow> deeper L' ev \<Longrightarrow> deeper L ev"
  by (cases ev) simp_all

lemma frame_refl: "frame L s s"
  by (simp add: frame_def)

lemma frame_same:
  "subscribers s' = subscribers s \<Longrightarrow> effectKeys s' = effectKeys s \<Longrightarrow>
   running s' = running s \<Longrightarrow> journal s' = journal s \<Longrightarrow> frame L s s'"
  by (simp add: frame_def consistent_def)

lemma frame_mono: "L \<le> L' \<Longrightarrow> frame L' s s' \<Longrightarrow> frame L s s'"
  unfolding frame_def list_all_iff using deeper_mono by blast

lemma frame_trans:
  assumes "frame L s s'" and "frame L s' s''"
  shows "frame L s s''"
proof -
  from assms(1) obtain j where j: "running s' = running s" "consistent s \<longrightarrow> consistent s'"
    "journal s' = journal s @ j" "list_all (deeper L) j"
    "\<forall>x. x \<in> set (running s) \<longrightarrow> set (effectKeys s' x) = set (effectKeys s x) \<union> readsOf x j"
    unfolding frame_def by blast
  from assms(2) obtain k where k: "running s'' = running s'" "consistent s' \<longrightarrow> consistent s''"
    "journal s'' = journal s' @ k" "list_all (deeper L) k"
    "\<forall>x. x \<in> set (running s') \<longrightarrow> set (effectKeys s'' x) = set (effectKeys s' x) \<union> readsOf x k"
    unfolding frame_def by blast
  have "journal s'' = journal s @ (j @ k)" using j(3) k(3) by simp
  moreover have "list_all (deeper L) (j @ k)" using j(4) k(4) by simp
  moreover have "\<forall>x. x \<in> set (running s) \<longrightarrow>
      set (effectKeys s'' x) = set (effectKeys s x) \<union> readsOf x (j @ k)"
    using j(1) j(5) k(5) by (simp add: Un_assoc)
  ultimately show ?thesis unfolding frame_def using j(1,2) k(1,2) by auto
qed

lemma set_addOnce [simp]: "set (addOnce x xs) = insert x (set xs)"
  by (auto simp add: addOnce_def)

lemma consistent_track: "consistent s \<Longrightarrow> consistent (track d s)"
  by (auto simp add: consistent_def track_def split: list.splits)

lemma consistent_noteRead [simp]: "consistent (noteRead d s) = consistent s"
  by (simp add: consistent_def noteRead_def split: list.splits)

lemma consistent_cleanupEffect: "consistent s \<Longrightarrow> consistent (cleanupEffect e s)"
  by (auto simp add: consistent_def cleanupEffect_def)

lemma frame_track: "frame L s (track d (noteRead d s))"
proof (cases "running s")
  case Nil
  then show ?thesis by (simp add: track_def noteRead_def frame_refl)
next
  case (Cons e outer)
  have "consistent s \<longrightarrow> consistent (track d (noteRead d s))"
    by (simp add: consistent_track)
  moreover have "running (track d (noteRead d s)) = running s"
    using Cons by (simp add: track_def noteRead_def)
  moreover have "journal (track d (noteRead d s)) = journal s @ [ReadBy e d]"
    using Cons by (simp add: track_def noteRead_def)
  moreover have "\<forall>x. x \<in> set (running s) \<longrightarrow>
      set (effectKeys (track d (noteRead d s)) x) = set (effectKeys s x) \<union> readsOf x [ReadBy e d]"
    using Cons by (simp add: track_def noteRead_def)
  ultimately show ?thesis unfolding frame_def by auto
qed

lemma frame_reactive: "frame L s (snd (reactive v s))"
  by (rule frame_same) (simp_all add: reactive_def)

lemma frame_getProp: "frame L s (snd (getProp w key s))"
proof (induction w key s rule: getProp.induct)
  case (1 p t key s)
  show ?case
  proof (cases "key = ReactiveFlags_RAW")
    case True
    then show ?thesis by (simp add: frame_refl)
  next
    case False
    let ?s0 = "track (p, Key key) (noteRead (p, Key key) s)"
    obtain res s1 where g: "getProp t key ?s0 = (res, s1)" by (cases "getProp t key ?s0")
    have "frame L ?s0 s1" using 1 [OF False] g by simp
    then have "frame L s s1" using frame_track frame_trans by blast
    moreover have "frame L s1 (snd (reactive res s1))" by (rule frame_reactive)
    ultimately have "frame L s (snd (reactive res s1))" using frame_trans by blast
    then show ?thesis using False g by simp
  qed
qed (simp_all add: frame_refl)

lemma frame_ownKeys: "frame L s (snd (ownKeys w s))"
proof (induction w s rule: ownKeys.induct)
  case (1 p t s)
  then show ?case using frame_track frame_trans by (metis ownKeys.simps(1))
qed (simp_all add: frame_refl)

lemma frame_journal:
  "frame L s s' \<Longrightarrow> journal s' = journal s @ newEvents s s' \<and> list_all (deeper L) (newEvents s s')"
  by (auto simp add: frame_def newEvents_def)

lemma frame_running: "frame L s s' \<Longrightarrow> running s' = running s"
  by (simp add: frame_def)

lemma frame_consistent: "frame L s s' \<Longrightarrow> consistent s \<Longrightarrow> consistent s'"
  by (simp add: frame_def)

lemma frame_effectKeys:
  "frame L s s' \<Longrightarrow> x \<in> set (running s) \<Longrightarrow>
   set (effectKeys s' x) = set (effectKeys s x) \<union> readsOf x (newEvents s s')"
  by (auto simp add: frame_def newEvents_def)

lemma newEvents_trans:
  "frame L s s' \<Longrightarrow> frame L' s' s'' \<Longrightarrow> newEvents s s'' = newEvents s s' @ newEvents s' s''"
  by (auto simp add: frame_def newEvents_def)

lemma newEvents_refl [simp]: "newEvents s s = []"
  by (simp add: newEvents_def)

lemma deeper_not_at: "list_all (deeper (Suc L)) j \<Longrightarrow> filter (invocationAt L) j = []"
proof (induction j)
  case Nil
  then show ?case by simp
next
  case (Cons ev j)
  then show ?case by (cases ev) auto
qed

lemma goodRunD:
  "goodRun run \<Longrightarrow> e \<notin> set (running s) \<Longrightarrow> run e s = Some s' \<Longrightarrow>
   frame (Suc (length (running s))) s s'"
  unfolding goodRun_def by blast

lemma invoke_frame:
  assumes "goodRun run" and "invoke E run e s = Some s'"
  shows "frame (length (running s)) s s'"
    and "filter (invocationAt (length (running s))) (newEvents s s') =
         (if e \<in> set (running s) \<or> effectAt E e = None then []
          else [invocationOf E (length (running s)) e])"
proof -
  let ?L = "length (running s)"
  have "frame ?L s s' \<and> filter (invocationAt ?L) (newEvents s s') =
         (if e \<in> set (running s) \<or> effectAt E e = None then [] else [invocationOf E ?L e])"
  proof (cases "e \<in> set (running s) \<or> effectAt E e = None")
    case True
    then have "s' = s" using assms(2) by (auto simp add: invoke_def split: if_splits)
    then show ?thesis using True by (simp add: frame_refl)
  next
    case False
    then obtain eff where eff: "effectAt E e = Some eff" and nr: "e \<notin> set (running s)" by auto
    have Ee: "E ! e = eff" using eff by (simp add: effectAt_def split: if_splits)
    show ?thesis
    proof (cases "scheduler eff")
      case (Some sched)
      then have s': "s' = s\<lparr>pending := sched (pending s), journal := journal s @ [Deferred ?L e]\<rparr>"
        using assms(2) eff nr by (simp add: invoke_def)
      have "frame ?L s s'" unfolding s'
        by (auto simp add: frame_def consistent_def)
      moreover have "newEvents s s' = [Deferred ?L e]" unfolding s' by (simp add: newEvents_def)
      ultimately show ?thesis using False Some Ee by (simp add: invocationOf_def)
    next
      case None
      let ?s1 = "s\<lparr>journal := journal s @ [Invoked ?L e]\<rparr>"
      have r: "run e ?s1 = Some s'" using assms(2) eff nr None by (simp add: invoke_def)
      have f1: "frame ?L s ?s1" by (auto simp add: frame_def consistent_def)
      have f2: "frame (Suc ?L) ?s1 s'"
        using goodRunD [OF assms(1) _ r] nr by simp
      then have f2': "frame ?L ?s1 s'" using frame_mono [of ?L "Suc ?L"] by simp
      have f: "frame ?L s s'" using f1 f2' frame_trans by blast
      have "newEvents s s' = newEvents s ?s1 @ newEvents ?s1 s'"
        using f1 f2 by (rule newEvents_trans)
      moreover have "newEvents s ?s1 = [Invoked ?L e]" by (simp add: newEvents_def)
      moreover have "filter (invocationAt ?L) (newEvents ?s1 s') = []"
        using frame_journal [OF f2] deeper_not_at by blast
      ultimately have "filter (invocationAt ?L) (newEvents s s') = [Invoked ?L e]" by simp
      then show ?thesis using f False None Ee by (simp add: invocationOf_def)
    qed
  qed
  then show "frame (length (running s)) s s'"
    and "filter (invocationAt (length (running s))) (newEvents s s') =
         (if e \<in> set (running s) \<or> effectAt E e = None then []
          else [invocationOf E (length (running s)) e])" by simp_all
qed

lemma invokeAll_frame:
  assumes "goodRun run"
  shows "invokeAll E run es s = Some s' \<Longrightarrow>
     frame (length (running s)) s s' \<and>
     filter (invocationAt (length (running s))) (newEvents s s') =
       map (invocationOf E (length (running s))) (filter (invokable E s) es)"
proof (induction es arbitrary: s)
  case Nil
  then show ?case by (simp add: frame_refl)
next
  case (Cons e es)
  let ?L = "length (running s)"
  from Cons.prems obtain s1 where i: "invoke E run e s = Some s1"
    and r: "invokeAll E run es s1 = Some s'"
    by (auto split: option.splits)
  have f1: "frame ?L s s1" using invoke_frame(1) [OF assms i] .
  have e1: "filter (invocationAt ?L) (newEvents s s1) =
         (if e \<in> set (running s) \<or> effectAt E e = None then [] else [invocationOf E ?L e])"
    using invoke_frame(2) [OF assms i] .
  have run1: "running s1 = running s" using f1 by (rule frame_running)
  have ih: "frame ?L s1 s' \<and>
     filter (invocationAt ?L) (newEvents s1 s') = map (invocationOf E ?L) (filter (invokable E s1) es)"
    using Cons.IH [OF r] run1 by simp
  have inv: "invokable E s1 = invokable E s" using run1 by (simp add: invokable_def fun_eq_iff)
  have "frame ?L s s'" using f1 ih frame_trans by blast
  moreover have "newEvents s s' = newEvents s s1 @ newEvents s1 s'"
    using f1 ih newEvents_trans by blast
  moreover have "(if e \<in> set (running s) \<or> effectAt E e = None then []
      else [invocationOf E ?L e]) = map (invocationOf E ?L) (filter (invokable E s) [e])"
    by (simp add: invokable_def effectAt_def)
  ultimately show ?case using e1 ih inv by simp
qed

lemma trigger_frame:
  assumes "goodRun run" and "trigger E run d structural s = Some s'"
  shows "frame (length (running s)) s s'"
    and "filter (invocationAt (length (running s))) (newEvents s s') =
       map (invocationOf E (length (running s))) (filter (invokable E s) (triggerBatch s d structural))"
  using invokeAll_frame [OF assms(1)] assms(2) unfolding trigger_def by blast+

lemma writeProp_frame:
  "goodRun run \<Longrightarrow> writeProp E run w key u s = Some s' \<Longrightarrow> frame (length (running s)) s s'"
proof (induction E run w key u s arbitrary: s' rule: writeProp.induct)
  case (1 E run p t key u s)
  from "1.prems" obtain s1 where s1: "writeProp E run t key u s = Some s1"
    by (auto split: option.splits)
  have f1: "frame (length (running s)) s s1" using "1.IH" [OF "1.prems"(1) s1] .
  show ?case
  proof (cases "writeChanges (objs s) t key u")
    case False
    then show ?thesis using "1.prems" s1 f1 by simp
  next
    case True
    then have t: "trigger E run (p, Key key) (changesStructure (objs s) t key u) s1 = Some s'"
      using "1.prems" s1 by simp
    have "frame (length (running s1)) s1 s'" using trigger_frame(1) [OF "1.prems"(1) t] .
    then show ?thesis using f1 frame_trans frame_running by metis
  qed
next
  case (2 E run a key u s)
  then show ?case by (auto intro!: frame_same)
qed (auto simp add: frame_refl)

lemma setProp_frame:
  "goodRun run \<Longrightarrow> setProp E run w key v s = Some s' \<Longrightarrow> frame (length (running s)) s s'"
  unfolding setProp_def by (rule writeProp_frame)

lemma deleteProp_frame:
  "goodRun run \<Longrightarrow> deleteProp E run w key s = Some s' \<Longrightarrow> frame (length (running s)) s s'"
  unfolding deleteProp_def by (rule writeProp_frame)

lemma execP_frame:
  "goodRun run \<Longrightarrow> execP E run p s = Some s' \<Longrightarrow> frame (length (running s)) s s'"
proof (induction p arbitrary: s s')
  case Done
  then show ?case by (simp add: frame_refl)
next
  case (Get w key k)
  obtain v s1 where g: "getProp w key s = (v, s1)" by (cases "getProp w key s")
  have f1: "frame (length (running s)) s s1" using frame_getProp [of _ s w key] g by simp
  have "execP E run (k v) s1 = Some s'" using Get.prems(2) g by simp
  then have "frame (length (running s1)) s1 s'" using Get.IH Get.prems(1) by blast
  then show ?case using f1 frame_trans frame_running by metis
next
  case (Keys w k)
  obtain ks s1 where g: "ownKeys w s = (ks, s1)" by (cases "ownKeys w s")
  have f1: "frame (length (running s)) s s1" using frame_ownKeys [of _ s w] g by simp
  have "execP E run (k ks) s1 = Some s'" using Keys.prems(2) g by simp
  then have "frame (length (running s1)) s1 s'" using Keys.IH Keys.prems(1) by blast
  then show ?case using f1 frame_trans frame_running by metis
next
  case (Set w key v rest)
  from Set.prems(2) obtain s1 where s1: "setProp E run w key v s = Some s1"
    and r: "execP E run rest s1 = Some s'"
    by (auto split: option.splits)
  have f1: "frame (length (running s)) s s1" using setProp_frame [OF Set.prems(1) s1] .
  have "frame (length (running s1)) s1 s'" using Set.IH [OF Set.prems(1) r] .
  then show ?case using f1 frame_trans frame_running by metis
next
  case (Delete w key rest)
  from Delete.prems(2) obtain s1 where s1: "deleteProp E run w key s = Some s1"
    and r: "execP E run rest s1 = Some s'"
    by (auto split: option.splits)
  have f1: "frame (length (running s)) s s1" using deleteProp_frame [OF Delete.prems(1) s1] .
  have "frame (length (running s1)) s1 s'" using Delete.IH [OF Delete.prems(1) r] .
  then show ?case using f1 frame_trans frame_running by metis
qed

lemma cleanupEffect_fields [simp]:
  "running (cleanupEffect e s) = running s"
  "journal (cleanupEffect e s) = journal s"
  "x \<noteq> e \<Longrightarrow> effectKeys (cleanupEffect e s) x = effectKeys s x"
  "effectKeys (cleanupEffect e s) e = []"
  by (simp_all add: cleanupEffect_def)

lemma runEffect_run:
  assumes "goodRun (runEffect E n)" and "e \<notin> set (running s)"
    and "runEffect E (Suc n) e s = Some s'"
  shows "frame (Suc (length (running s))) s s'"
    and "effectAt E e \<noteq> None \<Longrightarrow> set (effectKeys s' e) = readsOf e (newEvents s s')"
proof -
  let ?L = "length (running s)"
  have "frame (Suc ?L) s s' \<and>
    (effectAt E e \<noteq> None \<longrightarrow> set (effectKeys s' e) = readsOf e (newEvents s s'))"
  proof (cases "effectAt E e")
    case None
    then show ?thesis using assms(3) by (simp add: frame_refl)
  next
    case (Some eff)
    let ?s0 = "(cleanupEffect e s)\<lparr>running := e # running s\<rparr>"
    from assms(3) Some obtain s1 where x: "execP E (runEffect E n) (fn eff) ?s0 = Some s1"
      and s': "s' = s1\<lparr>running := tl (running s1)\<rparr>"
      by (auto split: option.splits)
    have f: "frame (Suc ?L) ?s0 s1" using execP_frame [OF assms(1) x] by simp
    have r1: "running s1 = e # running s" using frame_running [OF f] by simp
    have j1: "journal s1 = journal s @ newEvents s s1" "list_all (deeper (Suc ?L)) (newEvents s s1)"
      using frame_journal [OF f] by (simp_all add: newEvents_def)
    have n: "newEvents ?s0 s1 = newEvents s s1" by (simp add: newEvents_def)
    have k: "\<And>x. x \<in> set (e # running s) \<Longrightarrow>
        set (effectKeys s1 x) = set (effectKeys ?s0 x) \<union> readsOf x (newEvents s s1)"
      using frame_effectKeys [OF f] n by simp
    have c: "consistent s \<longrightarrow> consistent s1"
    proof
      assume "consistent s"
      then have "consistent (cleanupEffect e s)" by (rule consistent_cleanupEffect)
      then have "consistent ?s0" by (simp add: consistent_def)
      then show "consistent s1" using frame_consistent [OF f] by blast
    qed
    have ne: "newEvents s s' = newEvents s s1" unfolding s' by (simp add: newEvents_def)
    have "running s' = running s" unfolding s' using r1 by simp
    moreover have "consistent s \<longrightarrow> consistent s'" using c unfolding s' by (simp add: consistent_def)
    moreover have "journal s' = journal s @ newEvents s s1" unfolding s' using j1 by simp
    moreover have "\<forall>x. x \<in> set (running s) \<longrightarrow>
        set (effectKeys s' x) = set (effectKeys s x) \<union> readsOf x (newEvents s s1)"
    proof (intro allI impI)
      fix x assume xr: "x \<in> set (running s)"
      then have "x \<noteq> e" using assms(2) by blast
      then have "effectKeys ?s0 x = effectKeys s x" by simp
      then show "set (effectKeys s' x) = set (effectKeys s x) \<union> readsOf x (newEvents s s1)"
        using k [of x] xr unfolding s' by simp
    qed
    ultimately have fr: "frame (Suc ?L) s s'" unfolding frame_def using j1(2) by blast
    have "set (effectKeys s' e) = readsOf e (newEvents s s')"
      using k [of e] ne unfolding s' by simp
    then show ?thesis using fr by simp
  qed
  then show "frame (Suc (length (running s))) s s'"
    and "effectAt E e \<noteq> None \<Longrightarrow> set (effectKeys s' e) = readsOf e (newEvents s s')"
    by simp_all
qed

lemma goodRun_runEffect: "goodRun (runEffect E n)"
proof (induction n)
  case 0
  then show ?case by (simp add: goodRun_def)
next
  case (Suc n)
  show ?case unfolding goodRun_def using runEffect_run(1) [OF Suc] by blast
qed










lemma set_dedup [simp]: "set (dedup xs) = set xs"
  by (induction xs rule: dedup.induct) auto

lemma distinct_dedup [simp]: "distinct (dedup xs)"
  by (induction xs rule: dedup.induct) auto





lemma invocationAt_invocationOf [simp]: "invocationAt L (invocationOf E L e)"
  by (simp add: invocationOf_def split: option.splits)








lemma distinct_addOnce: "distinct xs \<Longrightarrow> distinct (addOnce x xs)"
  by (simp add: addOnce_def)

lemma track_distinct:
  "distinct (subscribers s d) \<Longrightarrow> distinct (subscribers (track k s) d)"
  by (auto simp add: track_def distinct_addOnce split: list.splits)

lemma cleanupEffect_distinct:
  "distinct (subscribers s d) \<Longrightarrow> distinct (subscribers (cleanupEffect e s) d)"
  by (simp add: cleanupEffect_def distinct_removeAll)

lemma ranAt_append [simp]: "ranAt L (xs @ ys) = ranAt L xs @ ranAt L ys"
proof (induction xs)
  case Nil
  then show ?case by simp
next
  case (Cons ev xs)
  then show ?case by (cases ev) simp_all
qed



text \<open>
  The agreement of store and key sets and the running effects are kept by every read,
  every write and every run.
\<close>

lemma getProp_preserves:
  "running (snd (getProp w key s)) = running s
   \<and> (consistent s \<longrightarrow> consistent (snd (getProp w key s)))"
  using frame_getProp [of 0 s w key] by (simp add: frame_def)

lemma writeProp_preserves:
  "writeProp E (runEffect E n) w key u s = Some s' \<Longrightarrow>
   running s' = running s \<and> (consistent s \<longrightarrow> consistent s')"
  using writeProp_frame [OF goodRun_runEffect] by (fastforce simp add: frame_def)

lemma runEffect_preserves:
  "e \<notin> set (running s) \<Longrightarrow> runEffect E n e s = Some s' \<Longrightarrow>
   running s' = running s \<and> (consistent s \<longrightarrow> consistent s')"
  using goodRunD [OF goodRun_runEffect] by (fastforce simp add: frame_def)

lemma emptyRuntime_simps [simp]:
  "objs emptyRuntime = exampleObjs" "nextProxy emptyRuntime = 0"
  "subscribers emptyRuntime = (\<lambda>d. [])" "effectKeys emptyRuntime = (\<lambda>e. [])"
  "running emptyRuntime = []" "pending emptyRuntime = []" "journal emptyRuntime = []"
  by (simp_all add: emptyRuntime_def)

lemmas eval_defs =
  counter_def effectAt_def cleanupEffect_def track_def noteRead_def
  addOnce_def ReactiveFlags_RAW_def reactive_def getTargetType_def exampleObjs_def emptyObject_def
  member_of_def trigger_def triggerBatch_def invoke_def setProp_def deleteProp_def
  writeChanges_def changesStructure_def applyUpdate_def

section \<open>C5: dependency precision\<close>



section \<open>C6: synchronous trigger ordering\<close>




text \<open>
  Writes that change the structure reach the subscribers of the sentinel key: in the
  state \<open>listWatched\<close>, a write of \<open>length\<close> runs the reader of \<open>length\<close> and then the
  effect that asked for the keys; the removal of element \<open>0\<close> runs its reader and then
  that effect; an assignment of another value to element \<open>0\<close> runs its reader only.
\<close>

lemma listWatched_subscribers:
  "subscribers listWatched (101, ITERATE_KEY) = [0]"
  "subscribers listWatched (101, Key ''length'') = [1]"
  "subscribers listWatched (101, Key ''0'') = [2]"
  "running listWatched = []"
  "journal listWatched =
     [ReadBy 0 (101, ITERATE_KEY), ReadBy 1 (101, Key ''length''), ReadBy 2 (101, Key ''0'')]"
  by (simp_all add: listWatched_def listWatchers_def items_def numeral_3_eq_3 eval_defs)

lemma structural_writes_reach_sentinel:
  "ranAt 0 (newEvents listWatched
      (the (setProp listWatchers (runEffect listWatchers 3) items ''length'' (VNum 0) listWatched)))
     = [1, 0]
   \<and> ranAt 0 (newEvents listWatched
      (the (deleteProp listWatchers (runEffect listWatchers 3) items ''0'' listWatched)))
     = [2, 0]
   \<and> ranAt 0 (newEvents listWatched
      (the (setProp listWatchers (runEffect listWatchers 3) items ''0'' (VNum 8) listWatched)))
     = [2]"
  by (simp add: listWatched_def listWatchers_def items_def numeral_3_eq_3 newEvents_def eval_defs)

section \<open>C7: the raw-unwrap key\<close>

text \<open>
  Claim C7. A read of the key \<open>ReactiveFlags.RAW\<close> through a wrapper returns the
  wrapper's target and leaves the whole state as it was: nothing is added to the
  dependency store, to the key set of the running effect or to the journal. For every
  value, the read gives the marker that \<open>toRaw\<close> follows.
\<close>

theorem raw_read_untracked:
  "getProp (VProxy p t) ReactiveFlags_RAW s = (t, s)
   \<and> getProp w ReactiveFlags_RAW s = (getRawFlag (objs s) w, s)"
  by (cases w) (simp_all add: member_of_def)

end
